theory Spec2Isabelle
  imports Complex_Main "HOL-Library.Sublist"
begin

section \<open>Doppler arithmetic of doppler.py\<close>

text \<open>
  Python floats are modelled as real numbers: every arithmetic operation of the source is
  the exact operation on \<open>real\<close>, so rounding, infinities and NaN are outside the model.
  Python integers are \<open>int\<close>. A division whose divisor is zero raises
  \<open>ZeroDivisionError\<close> in Python; unpacking a tuple into the wrong number of names
  raises \<open>ValueError\<close>. Both are values of the type \<open>error\<close>, and a function that can
  raise returns \<open>error + 'a\<close> with \<open>Inl\<close> for the exception.
\<close>

datatype error = ZeroDivisionError | ValueError

definition C :: real where
  "C = 299792458"

definition HOUR :: real where
  "HOUR = 1 / 24"

definition MINUTE :: real where
  "MINUTE = HOUR / 60"

definition SECOND :: real where
  "SECOND = MINUTE / 60"

text \<open>
  \<^verbatim>\<open>
  def doppler_shift(f0, vel):
      f0 = f0 * 1_000_000
      f = ((C / (C + vel)) * f0)
      shift = f0 - f
      return shift
  \<close>
\<close>

definition doppler_shift :: "real \<Rightarrow> real \<Rightarrow> error + real" where
  "doppler_shift f0 vel =
     (let f0' = f0 * 1000000 in
      if C + vel = 0 then Inl ZeroDivisionError
      else (let f = (C / (C + vel)) * f0';
                shift = f0' - f
            in Inr shift))"

text \<open>
  \<^verbatim>\<open>
  def doppler_convert(f_orig, f_shift, f_new):
      f_orig = f_orig * 1_000_000
      f_new = f_new * 1_000_000
      f = f_orig + f_shift
      doppler_const = f / f_orig
      f_new_shift = doppler_const * f_new
      new_shift = f_new_shift - f_new
      return new_shift
  \<close>
\<close>

definition doppler_convert :: "real \<Rightarrow> real \<Rightarrow> real \<Rightarrow> error + real" where
  "doppler_convert f_orig f_shift f_new =
     (let f_orig' = f_orig * 1000000;
          f_new' = f_new * 1000000;
          f = f_orig' + f_shift
      in if f_orig' = 0 then Inl ZeroDivisionError
         else (let doppler_const = f / f_orig';
                   f_new_shift = doppler_const * f_new';
                   new_shift = f_new_shift - f_new'
               in Inr new_shift))"

section \<open>Sampling the Doppler shift of a pass\<close>

text \<open>
  The observer and the satellite are objects of the external library ephem.
  \<open>sat.compute(obs)\<close> followed by \<open>sat.range_velocity\<close> is taken as a parameter
  \<open>range_velocity\<close>: the range velocity in m/s as a function of \<open>obs.date\<close>, a date in
  days. Assigning \<open>obs.date\<close> and then calling \<open>compute_doppler(obs, sat, ...)\<close> is
  \<open>compute_doppler range_velocity date ...\<close>.
  \<^verbatim>\<open>
  def compute_doppler(obs, sat, rx_freq=0.0, tx_freq=0.0):
      sat.compute(obs)
      velocity = sat.range_velocity
      tx_shift = doppler_shift(tx_freq, velocity)
      rx_shift = doppler_shift(rx_freq, -1 * velocity)
      return rx_shift, tx_shift
  \<close>
\<close>

definition compute_doppler :: "(real \<Rightarrow> real) \<Rightarrow> real \<Rightarrow> real \<Rightarrow> real \<Rightarrow> error + (real \<times> real)" where
  "compute_doppler range_velocity date rx_freq tx_freq =
     (let velocity = range_velocity date in
      case doppler_shift tx_freq velocity of
        Inl e \<Rightarrow> Inl e
      | Inr tx_shift \<Rightarrow>
          (case doppler_shift rx_freq (-1 * velocity) of
             Inl e \<Rightarrow> Inl e
           | Inr rx_shift \<Rightarrow> Inr (rx_shift, tx_shift)))"

text \<open>
  \<^verbatim>\<open>
  def compute_doppler_freqs(obs, sat, AOS, LOS, channels=5, rx_freq=0.0, tx_freq=0.0):
      mems = []
      obs.date = AOS
      start_rx, start_tx = compute_doppler(obs, sat, rx_freq, tx_freq)
      obs.date = LOS
      end_rx, end_tx = compute_doppler(obs, sat, rx_freq, tx_freq)
      rx_interval = (end_rx - start_rx) / (channels-1)
      tx_interval = (end_tx - start_tx) / (channels-1)
      for interval in range(channels):
          shift_rx = start_rx + (rx_interval * interval)
          shift_tx = start_tx + (tx_interval * interval)
          mems.append( [ rx_freq + shift_rx / 1_000_000 ,
                         tx_freq + shift_tx / 1_000_000 ] )
      return mems
  \<close>
  A channel \<open>[rx, tx]\<close> is a pair; \<open>range(channels)\<close> is \<open>[0..channels - 1]\<close>, empty for
  \<open>channels \<le> 0\<close>.
\<close>

definition compute_doppler_freqs ::
    "(real \<Rightarrow> real) \<Rightarrow> real \<Rightarrow> real \<Rightarrow> int \<Rightarrow> real \<Rightarrow> real \<Rightarrow> error + (real \<times> real) list" where
  "compute_doppler_freqs range_velocity AOS LOS channels rx_freq tx_freq =
     (case compute_doppler range_velocity AOS rx_freq tx_freq of
        Inl e \<Rightarrow> Inl e
      | Inr (start_rx, start_tx) \<Rightarrow>
          (case compute_doppler range_velocity LOS rx_freq tx_freq of
             Inl e \<Rightarrow> Inl e
           | Inr (end_rx, end_tx) \<Rightarrow>
               if channels - 1 = 0 then Inl ZeroDivisionError
               else (let rx_interval = (end_rx - start_rx) / of_int (channels - 1);
                         tx_interval = (end_tx - start_tx) / of_int (channels - 1)
                     in Inr (map (\<lambda>interval.
                                (let shift_rx = start_rx + (rx_interval * of_int interval);
                                     shift_tx = start_tx + (tx_interval * of_int interval)
                                 in (rx_freq + shift_rx / 1000000,
                                     tx_freq + shift_tx / 1000000)))
                             [0..channels - 1]))))"

text \<open>
  Unpacking a tuple into three names succeeds on a tuple of three values only.
  \<open>compute_doppler\<close> returns a tuple of two values, \<open>tuple_of\<close> of the pair.
\<close>

fun unpack3 :: "real list \<Rightarrow> error + (real \<times> real \<times> real)" where
  "unpack3 [a, b, c] = Inr (a, b, c)"
| "unpack3 t = Inl ValueError"

definition tuple_of :: "real \<times> real \<Rightarrow> real list" where
  "tuple_of p = [fst p, snd p]"

text \<open>
  \<^verbatim>\<open>
  def compute_shift_graph(obs, sat, AOS, LOS, rx_freq=0.0, tx_freq=0.0):
      out_data = []
      pass_length = LOS - AOS
      intervals = int( pass_length // SECOND )
      for i in range(intervals):
          obs.date = AOS + (i * SECOND)
          rx_shift, tx_shift, velocity = compute_doppler(obs, sat, rx_freq, tx_freq)
          out_data.append( (i, rx_shift, tx_shift) )
      return out_data
  \<close>
  The loop is a recursion over the seconds still to visit; an exception ends it.
\<close>

fun shift_graph_loop ::
    "(real \<Rightarrow> real) \<Rightarrow> real \<Rightarrow> real \<Rightarrow> real \<Rightarrow> int list \<Rightarrow> (int \<times> real \<times> real) list
       \<Rightarrow> error + (int \<times> real \<times> real) list" where
  "shift_graph_loop range_velocity AOS rx_freq tx_freq [] out_data = Inr out_data"
| "shift_graph_loop range_velocity AOS rx_freq tx_freq (i # rest) out_data =
     (case compute_doppler range_velocity (AOS + (of_int i * SECOND)) rx_freq tx_freq of
        Inl e \<Rightarrow> Inl e
      | Inr t \<Rightarrow>
          (case unpack3 (tuple_of t) of
             Inl e \<Rightarrow> Inl e
           | Inr (rx_shift, tx_shift, velocity) \<Rightarrow>
               shift_graph_loop range_velocity AOS rx_freq tx_freq rest
                 (out_data @ [(i, rx_shift, tx_shift)])))"

definition compute_shift_graph ::
    "(real \<Rightarrow> real) \<Rightarrow> real \<Rightarrow> real \<Rightarrow> real \<Rightarrow> real \<Rightarrow> error + (int \<times> real \<times> real) list" where
  "compute_shift_graph range_velocity AOS LOS rx_freq tx_freq =
     (let pass_length = LOS - AOS;
          intervals = \<lfloor>pass_length / SECOND\<rfloor>
      in shift_graph_loop range_velocity AOS rx_freq tx_freq [0..intervals - 1] [])"

section \<open>Choosing channels and switch times\<close>

text \<open>
  \<^verbatim>\<open>
  def best_channel(freq, mems):
      best = -1
      best_diff = 0
      for i in range( len(mems) ):
          diff = abs(mems[i][0] - freq)
          if diff < best_diff or best == -1:
              best = i
              best_diff = diff
      return best
  \<close>
  The loop walks \<open>mems\<close> with the index \<open>i\<close> of its head.
\<close>

fun best_channel_loop :: "real \<Rightarrow> (real \<times> real) list \<Rightarrow> int \<Rightarrow> int \<times> real \<Rightarrow> int \<times> real" where
  "best_channel_loop freq [] i (best, best_diff) = (best, best_diff)"
| "best_channel_loop freq (m # ms) i (best, best_diff) =
     (let diff = \<bar>fst m - freq\<bar> in
      if diff < best_diff \<or> best = -1
      then best_channel_loop freq ms (i + 1) (i, diff)
      else best_channel_loop freq ms (i + 1) (best, best_diff))"

definition best_channel :: "real \<Rightarrow> (real \<times> real) list \<Rightarrow> int" where
  "best_channel freq mems = fst (best_channel_loop freq mems 0 (-1, 0))"

text \<open>
  \<^verbatim>\<open>
  def compute_shift_times(obs, sat, AOS, LOS, mems, rx_freq=0.0, tx_freq=0.0):
      switch_times = []
      curr_mem = -1
      pass_length = LOS - AOS
      intervals = int( pass_length // SECOND )
      for i in range(intervals):
          obs.date = AOS + (i * SECOND)
          rx_shift, tx_shift = compute_doppler(obs, sat, rx_freq, tx_freq)
          shifted_rx = rx_freq + (rx_shift / 1_000_000)
          shifted_tx = tx_freq + (tx_shift / 1_000_000)
          best_mem = best_channel(shifted_rx, mems)
          if (curr_mem < len(mems) - 1 and curr_mem != best_mem):
              curr_mem = best_mem
              switch_times.append([curr_mem, obs.date, shifted_rx, shifted_tx])
      return switch_times
  \<close>
  A switch entry \<open>[curr_mem, obs.date, shifted_rx, shifted_tx]\<close> is a record. The loop
  state is \<open>(curr_mem, switch_times)\<close>; \<open>shift_times_step\<close> is one run of the loop body.
\<close>

record switch_entry =
  mem :: int
  time :: real
  rx :: real
  tx :: real

definition shift_times_step ::
    "(real \<Rightarrow> real) \<Rightarrow> real \<Rightarrow> (real \<times> real) list \<Rightarrow> real \<Rightarrow> real \<Rightarrow> int
       \<Rightarrow> int \<times> switch_entry list \<Rightarrow> error + (int \<times> switch_entry list)" where
  "shift_times_step range_velocity AOS mems rx_freq tx_freq i st =
     (let curr_mem = fst st; switch_times = snd st;
          date = AOS + (of_int i * SECOND) in
      case compute_doppler range_velocity date rx_freq tx_freq of
        Inl e \<Rightarrow> Inl e
      | Inr (rx_shift, tx_shift) \<Rightarrow>
          (let shifted_rx = rx_freq + (rx_shift / 1000000);
               shifted_tx = tx_freq + (tx_shift / 1000000);
               best_mem = best_channel shifted_rx mems
           in if curr_mem < int (length mems) - 1 \<and> curr_mem \<noteq> best_mem
              then Inr (best_mem,
                        switch_times @ [\<lparr>mem = best_mem, time = date,
                                          rx = shifted_rx, tx = shifted_tx\<rparr>])
              else Inr (curr_mem, switch_times)))"

fun shift_times_loop ::
    "(real \<Rightarrow> real) \<Rightarrow> real \<Rightarrow> (real \<times> real) list \<Rightarrow> real \<Rightarrow> real \<Rightarrow> int list
       \<Rightarrow> int \<times> switch_entry list \<Rightarrow> error + (int \<times> switch_entry list)" where
  "shift_times_loop range_velocity AOS mems rx_freq tx_freq [] st = Inr st"
| "shift_times_loop range_velocity AOS mems rx_freq tx_freq (i # rest) st =
     (case shift_times_step range_velocity AOS mems rx_freq tx_freq i st of
        Inl e \<Rightarrow> Inl e
      | Inr st' \<Rightarrow> shift_times_loop range_velocity AOS mems rx_freq tx_freq rest st')"

definition compute_shift_times ::
    "(real \<Rightarrow> real) \<Rightarrow> real \<Rightarrow> real \<Rightarrow> (real \<times> real) list \<Rightarrow> real \<Rightarrow> real
       \<Rightarrow> error + switch_entry list" where
  "compute_shift_times range_velocity AOS LOS mems rx_freq tx_freq =
     (let pass_length = LOS - AOS;
          intervals = \<lfloor>pass_length / SECOND\<rfloor>
      in case shift_times_loop range_velocity AOS mems rx_freq tx_freq
                [0..intervals - 1] (-1, []) of
           Inl e \<Rightarrow> Inl e
         | Inr st \<Rightarrow> Inr (snd st))"

section \<open>Averaging the channel tables of several passes\<close>

text \<open>
  The averaging step of \<open>main\<close>:
  \<^verbatim>\<open>
  average_memory = [ [0.0, 0.0] for i in range(channels) ]
  for mem_set in memory_sets:
      for mem, avg_mem in zip(mem_set, average_memory):
          avg_mem[0] += mem[0]
          avg_mem[1] += mem[1]
  ...
  for mem in average_memory:
      mem[0] /= total_tests
      mem[1] /= total_tests
  \<close>
  The inner lists of \<open>average_memory\<close> are distinct objects, so updating \<open>avg_mem\<close> in
  place updates one entry of \<open>average_memory\<close>. \<open>zip\<close> stops at the shorter list:
  entries of \<open>average_memory\<close> beyond the length of \<open>mem_set\<close> are left as they are.
  The printing between and inside the loops is left out.
\<close>

fun add_mem_set :: "(real \<times> real) list \<Rightarrow> (real \<times> real) list \<Rightarrow> (real \<times> real) list" where
  "add_mem_set [] average_memory = average_memory"
| "add_mem_set (m # mem_set) [] = []"
| "add_mem_set (m # mem_set) (avg_mem # average_memory) =
     (fst avg_mem + fst m, snd avg_mem + snd m) # add_mem_set mem_set average_memory"

fun sum_mem_sets :: "(real \<times> real) list list \<Rightarrow> (real \<times> real) list \<Rightarrow> (real \<times> real) list" where
  "sum_mem_sets [] average_memory = average_memory"
| "sum_mem_sets (mem_set # memory_sets) average_memory =
     sum_mem_sets memory_sets (add_mem_set mem_set average_memory)"

fun divide_mems :: "int \<Rightarrow> (real \<times> real) list \<Rightarrow> error + (real \<times> real) list" where
  "divide_mems total_tests [] = Inr []"
| "divide_mems total_tests (m # average_memory) =
     (if total_tests = 0 then Inl ZeroDivisionError
      else (case divide_mems total_tests average_memory of
              Inl e \<Rightarrow> Inl e
            | Inr rest \<Rightarrow> Inr ((fst m / of_int total_tests, snd m / of_int total_tests) # rest)))"

definition average_memory ::
    "int \<Rightarrow> int \<Rightarrow> (real \<times> real) list list \<Rightarrow> error + (real \<times> real) list" where
  "average_memory channels total_tests memory_sets =
     divide_mems total_tests
       (sum_mem_sets memory_sets (map (\<lambda>i. (0, 0)) [0..channels - 1]))"

section \<open>Searching for the next high pass\<close>

text \<open>
  \<^verbatim>\<open>
  def next_high_pass(obs, sat, min_elevation=5.0, limit=25):
      try:
          elevation = 0.0
          while (elevation < min_elevation and limit > 0):
              next_pass = obs.next_pass(sat)
              elevation = (next_pass[3] * 360) / (2 * math.pi)
              obs.date = next_pass[4]
              limit -= 0
          return next_pass if limit > 0 else None
      except:
          return None
  \<close>
  \<open>obs.next_pass(sat)\<close> belongs to ephem and is a parameter \<open>np\<close>: from \<open>obs.date\<close> to
  the tuple of the next pass, or \<open>Inl\<close> when the call, or the use of its tuple in the loop
  body, raises. Of the tuple the code reads entry 3, the maximum altitude in radians, and
  entry 4, the set time.

  The loop may run forever, so it is a partial function into \<open>option\<close>: \<open>None\<close> means
  that the function does not return. A returned value is \<open>Some r\<close>, where \<open>r\<close> is
  \<open>Some p\<close> for the pass \<open>p\<close> and \<open>None\<close> for Python's \<open>None\<close>. The variable
  \<open>next_pass\<close> is unbound until the loop body has run: it is \<open>None\<close> then, and
  \<open>return next_pass\<close> raises \<open>UnboundLocalError\<close>, which the \<open>except\<close> turns into the
  result \<open>None\<close>.
\<close>

record pass_info =
  rise_time :: real
  rise_az :: real
  max_time :: real
  max_alt :: real
  set_time :: real
  set_az :: real

definition elevation_of :: "pass_info \<Rightarrow> real" where
  "elevation_of next_pass = (max_alt next_pass * 360) / (2 * pi)"

partial_function (option) high_pass_loop ::
    "(real \<Rightarrow> error + pass_info) \<Rightarrow> real \<Rightarrow> int \<Rightarrow> real \<Rightarrow> real \<Rightarrow> pass_info option
       \<Rightarrow> pass_info option option" where
  "high_pass_loop np min_elevation limit date elevation next_pass =
     (if elevation < min_elevation \<and> limit > 0
      then (case np date of
              Inl e \<Rightarrow> Some None
            | Inr p \<Rightarrow>
                high_pass_loop np min_elevation (limit - 0) (set_time p) (elevation_of p) (Some p))
      else Some (if limit > 0 then next_pass else None))"

definition next_high_pass ::
    "(real \<Rightarrow> error + pass_info) \<Rightarrow> real \<Rightarrow> real \<Rightarrow> int \<Rightarrow> pass_info option option" where
  "next_high_pass np date min_elevation limit =
     high_pass_loop np min_elevation limit date 0 None"

text \<open>
  The passes that repeated calls of \<open>obs.next_pass\<close> give: \<open>kth_pass np date k\<close> is the
  result of call number \<open>k\<close> (from 0) when every call sets \<open>obs.date\<close> to the set time of
  the pass it found, and \<open>Inl\<close> when that call or an earlier one raises.
\<close>

fun kth_pass :: "(real \<Rightarrow> error + pass_info) \<Rightarrow> real \<Rightarrow> nat \<Rightarrow> error + pass_info" where
  "kth_pass np date 0 = np date"
| "kth_pass np date (Suc k) =
     (case np date of Inl e \<Rightarrow> Inl e | Inr p \<Rightarrow> kth_pass np (set_time p) k)"

definition low_pass :: "real \<Rightarrow> error + pass_info \<Rightarrow> bool" where
  "low_pass min_elevation r = (case r of Inl e \<Rightarrow> False | Inr p \<Rightarrow> elevation_of p < min_elevation)"

text \<open>
  \<open>stops_at np min_elevation date k r\<close>: the calls number \<open>0\<close> to \<open>k - 1\<close> of
  \<open>obs.next_pass\<close> find passes below \<open>min_elevation\<close>, and call number \<open>k\<close> either
  raises, with \<open>r\<close> Python's \<open>None\<close>, or finds a pass \<open>p\<close> of elevation at least
  \<open>min_elevation\<close>, with \<open>r = Some p\<close>.
\<close>

definition stops_at :: "(real \<Rightarrow> error + pass_info) \<Rightarrow> real \<Rightarrow> real \<Rightarrow> nat \<Rightarrow> pass_info option \<Rightarrow> bool" where
  "stops_at np min_elevation date k r \<longleftrightarrow>
     (\<forall>j<k. low_pass min_elevation (kth_pass np date j))
     \<and> (case kth_pass np date k of
          Inl e \<Rightarrow> r = None
        | Inr p \<Rightarrow> \<not> elevation_of p < min_elevation \<and> r = Some p)"

section \<open>An example pass\<close>

text \<open>
  A pass of two seconds in which the satellite approaches at 7000 m/s during the first
  second and recedes at 7000 m/s afterwards (ephem's range velocity is negative while
  the range shrinks), and two channels around 145 MHz, in ascending order of their
  receive frequency.
\<close>

definition example_velocity :: "real \<Rightarrow> real" where
  "example_velocity date = (if date < 1 / 86400 then -7000 else 7000)"

definition example_mems :: "(real \<times> real) list" where
  "example_mems = [(1449 / 10, 4351 / 10), (1451 / 10, 4349 / 10)]"

text \<open>Two channel tables of two channels each, as two passes would give them.\<close>

definition example_memory_sets :: "(real \<times> real) list list" where
  "example_memory_sets = [[(1, 2), (3, 4)], [(3, 6), (5, 8)]]"

text \<open>
  Two passes: one whose maximum altitude is 0 degrees and one that goes through the
  zenith, 90 degrees. \<open>example_next_pass\<close> finds the first one before date 1 and the
  second one from then on.
\<close>

definition example_low_pass :: pass_info where
  "example_low_pass = \<lparr>rise_time = 0, rise_az = 0, max_time = 1 / 2, max_alt = 0,
                         set_time = 1, set_az = pi\<rparr>"

definition example_high_pass :: pass_info where
  "example_high_pass = \<lparr>rise_time = 2, rise_az = 0, max_time = 5 / 2, max_alt = pi / 2,
                          set_time = 3, set_az = pi\<rparr>"

definition example_next_pass :: "real \<Rightarrow> error + pass_info" where
  "example_next_pass date = (if date < 1 then Inr example_low_pass else Inr example_high_pass)"

section \<open>Properties of the Doppler arithmetic\<close>

lemma C_pos: "0 < C"
  by (simp add: C_def)

text \<open>
  Claim C1. For an emitted frequency \<open>f0\<close> in MHz and a relative velocity \<open>v\<close> in m/s with
  \<open>C + v \<noteq> 0\<close>, \<open>doppler_shift f0 v\<close> returns
  \<open>f0 * 10^6 - (C / (C + v)) * (f0 * 10^6)\<close>: the emitted frequency in Hz minus the
  received frequency \<open>f0 * c / (c + v)\<close>.
\<close>

theorem doppler_shift_formula:
  "C + v \<noteq> 0 \<Longrightarrow>
     doppler_shift f0 v = Inr (f0 * 10 ^ 6 - (C / (C + v)) * (f0 * 10 ^ 6))
     \<and> (C / (C + v)) * (f0 * 10 ^ 6) = (f0 * 10 ^ 6) * C / (C + v)"
  by (simp add: doppler_shift_def Let_def)

theorem doppler_shift_formula_witness:
  "C + 7000 \<noteq> 0 \<and>
   doppler_shift 145 7000 = Inr (145 * 10 ^ 6 - (C / (C + 7000)) * (145 * 10 ^ 6))
   \<and> (C / (C + 7000)) * (145 * 10 ^ 6) = (145 * 10 ^ 6) * C / (C + 7000)"
proof -
  have h: "C + 7000 \<noteq> 0" by (simp add: C_def)
  show ?thesis using h doppler_shift_formula [OF h, of 145] by simp
qed

text \<open>
  Claim C2. For \<open>f_orig \<noteq> 0\<close>, \<open>doppler_convert f_orig f_shift f_new\<close> returns
  \<open>((f_orig * 10^6 + f_shift) / (f_orig * 10^6)) * (f_new * 10^6) - f_new * 10^6\<close>, the
  shift scaled by the ratio \<open>(f_orig + shift) / f_orig\<close> taken in Hz; over the reals this
  is \<open>f_shift * (f_new / f_orig)\<close>.
\<close>

theorem doppler_convert_formula:
  "f_orig \<noteq> 0 \<Longrightarrow>
     doppler_convert f_orig f_shift f_new =
       Inr (((f_orig * 10 ^ 6 + f_shift) / (f_orig * 10 ^ 6)) * (f_new * 10 ^ 6) - f_new * 10 ^ 6)
     \<and> doppler_convert f_orig f_shift f_new = Inr (f_shift * (f_new / f_orig))"
  by (simp add: doppler_convert_def Let_def field_simps)

theorem doppler_convert_formula_witness:
  "(145::real) \<noteq> 0 \<and>
   doppler_convert 145 3000 435 =
     Inr (((145 * 10 ^ 6 + 3000) / (145 * 10 ^ 6)) * (435 * 10 ^ 6) - 435 * 10 ^ 6)
   \<and> doppler_convert 145 3000 435 = Inr (3000 * (435 / 145))"
proof -
  have h: "(145::real) \<noteq> 0" by simp
  show ?thesis using h doppler_convert_formula [OF h, of 3000 435] by simp
qed

text \<open>
  Claim C3. When one velocity \<open>v\<close> applies to both frequencies, converting the shift of
  \<open>f_orig\<close> to \<open>f_new\<close> gives the shift computed for \<open>f_new\<close> directly: for
  \<open>f_orig \<noteq> 0\<close> and \<open>C + v \<noteq> 0\<close>, \<open>doppler_shift f_orig v\<close> returns some \<open>s\<close> and
  \<open>doppler_convert f_orig s f_new = doppler_shift f_new v\<close>.
\<close>

theorem doppler_convert_shift:
  "f_orig \<noteq> 0 \<Longrightarrow> C + v \<noteq> 0 \<Longrightarrow>
     \<exists>s. doppler_shift f_orig v = Inr s
       \<and> doppler_convert f_orig s f_new = doppler_shift f_new v"
proof -
  assume f: "f_orig \<noteq> 0" and v: "C + v \<noteq> 0"
  define s where "s = f_orig * 1000000 - (C / (C + v)) * (f_orig * 1000000)"
  have shift: "doppler_shift f_orig v = Inr s"
    using v by (simp add: doppler_shift_def Let_def s_def)
  have "(f_orig * 1000000 + s) / (f_orig * 1000000) = 2 - C / (C + v)"
    using f by (simp add: s_def field_simps)
  then have "doppler_convert f_orig s f_new =
      Inr ((2 - C / (C + v)) * (f_new * 1000000) - f_new * 1000000)"
    using f by (simp add: doppler_convert_def Let_def)
  also have "\<dots> = doppler_shift f_new v"
    using v by (simp add: doppler_shift_def Let_def algebra_simps)
  finally show ?thesis
    using shift by blast
qed

theorem doppler_convert_shift_witness:
  "(145::real) \<noteq> 0 \<and> C + 7000 \<noteq> 0 \<and>
   (\<exists>s. doppler_shift 145 7000 = Inr s
       \<and> doppler_convert 145 s 435 = doppler_shift 435 7000)"
proof -
  have h1: "(145::real) \<noteq> 0" by simp
  have h2: "C + 7000 \<noteq> 0" by (simp add: C_def)
  show ?thesis using h1 h2 doppler_convert_shift [OF h1 h2, of 435] by simp
qed

section \<open>Properties of the pass sampling\<close>

lemma SECOND_eq: "SECOND = 1 / 86400"
  by (simp add: SECOND_def MINUTE_def HOUR_def)

lemma intervals_eq: "\<lfloor>(LOS - AOS) / SECOND\<rfloor> = \<lfloor>(LOS - AOS) * 86400\<rfloor>"
  by (simp add: SECOND_eq)

lemma doppler_shift_error: "doppler_shift f0 vel = Inl e \<Longrightarrow> e = ZeroDivisionError"
  by (simp add: doppler_shift_def Let_def split: if_splits)

lemma compute_doppler_error:
  "compute_doppler range_velocity date rx_freq tx_freq = Inl e \<Longrightarrow> e = ZeroDivisionError"
  by (auto simp: compute_doppler_def Let_def split: sum.splits dest: doppler_shift_error)

lemma doppler_at_second0: "compute_doppler example_velocity 0 145 435 =
   Inr (145 * 7000000000 / 299799458, - (435 * 7000000000 / 299785458))"
  by (simp add: compute_doppler_def doppler_shift_def example_velocity_def C_def Let_def)

lemma doppler_at_second1: "compute_doppler example_velocity (1 / 86400) 145 435 =
   Inr (- (145 * 7000000000 / 299785458), 435 * 7000000000 / 299799458)"
  by (simp add: compute_doppler_def doppler_shift_def example_velocity_def C_def Let_def)

text \<open>
  Claim C4. For \<open>channels \<ge> 2\<close>, when \<open>compute_doppler\<close> gives the shifts
  \<open>(start_rx, start_tx)\<close> at AOS and \<open>(end_rx, end_tx)\<close> at LOS,
  \<open>compute_doppler_freqs\<close> returns a list of exactly \<open>channels\<close> pairs whose entry \<open>i\<close>
  is \<open>(rx_freq + (start_rx + i * (end_rx - start_rx) / (channels - 1)) / 10^6,
  tx_freq + (start_tx + i * (end_tx - start_tx) / (channels - 1)) / 10^6)\<close>; entry 0 is
  the sample of the pass start and entry \<open>channels - 1\<close> the sample of the pass end.
\<close>

theorem compute_doppler_freqs_table:
  assumes ch: "2 \<le> channels"
    and s: "compute_doppler range_velocity AOS rx_freq tx_freq = Inr (start_rx, start_tx)"
    and e: "compute_doppler range_velocity LOS rx_freq tx_freq = Inr (end_rx, end_tx)"
  shows "\<exists>mems. compute_doppler_freqs range_velocity AOS LOS channels rx_freq tx_freq = Inr mems
           \<and> int (length mems) = channels
           \<and> (\<forall>i. 0 \<le> i \<and> i < channels \<longrightarrow>
                 mems ! nat i =
                   (rx_freq + (start_rx + of_int i * (end_rx - start_rx) / of_int (channels - 1)) / 10 ^ 6,
                    tx_freq + (start_tx + of_int i * (end_tx - start_tx) / of_int (channels - 1)) / 10 ^ 6))
           \<and> mems ! 0 = (rx_freq + start_rx / 10 ^ 6, tx_freq + start_tx / 10 ^ 6)
           \<and> mems ! nat (channels - 1) = (rx_freq + end_rx / 10 ^ 6, tx_freq + end_tx / 10 ^ 6)"
proof -
  define mems where "mems = map (\<lambda>interval.
       (rx_freq + (start_rx + ((end_rx - start_rx) / of_int (channels - 1)) * of_int interval) / 1000000,
        tx_freq + (start_tx + ((end_tx - start_tx) / of_int (channels - 1)) * of_int interval) / 1000000))
     [0..channels - 1]"
  have run: "compute_doppler_freqs range_velocity AOS LOS channels rx_freq tx_freq = Inr mems"
    using ch s e by (simp add: compute_doppler_freqs_def Let_def mems_def)
  have len: "int (length mems) = channels"
    using ch by (simp add: mems_def)
  have nth: "mems ! nat i =
       (rx_freq + (start_rx + of_int i * (end_rx - start_rx) / of_int (channels - 1)) / 10 ^ 6,
        tx_freq + (start_tx + of_int i * (end_tx - start_tx) / of_int (channels - 1)) / 10 ^ 6)"
    if "0 \<le> i" "i < channels" for i
  proof -
    have "nat i < length [0..channels - 1]" using that by simp
    moreover have "[0..channels - 1] ! nat i = i" using that by simp
    ultimately show ?thesis
      by (simp add: mems_def mult.commute)
  qed
  have first: "mems ! 0 = (rx_freq + start_rx / 10 ^ 6, tx_freq + start_tx / 10 ^ 6)"
    using nth [of 0] ch by simp
  have last: "mems ! nat (channels - 1) = (rx_freq + end_rx / 10 ^ 6, tx_freq + end_tx / 10 ^ 6)"
    using nth [of "channels - 1"] ch by simp
  show ?thesis
    using run len nth first last by blast
qed

theorem compute_doppler_freqs_table_witness:
  "(2::int) \<le> 3
   \<and> compute_doppler example_velocity 0 145 435 =
       Inr (145 * 7000000000 / 299799458, - (435 * 7000000000 / 299785458))
   \<and> compute_doppler example_velocity (1 / 86400) 145 435 =
       Inr (- (145 * 7000000000 / 299785458), 435 * 7000000000 / 299799458)
   \<and> (\<exists>mems. compute_doppler_freqs example_velocity 0 (1 / 86400) 3 145 435 = Inr mems
         \<and> int (length mems) = 3
         \<and> mems ! 0 = (145 + (145 * 7000000000 / 299799458) / 10 ^ 6,
                       435 + (- (435 * 7000000000 / 299785458)) / 10 ^ 6)
         \<and> mems ! nat (3 - 1) = (145 + (- (145 * 7000000000 / 299785458)) / 10 ^ 6,
                                 435 + (435 * 7000000000 / 299799458) / 10 ^ 6))"
proof -
  have h: "(2::int) \<le> 3" by simp
  show ?thesis
    using h doppler_at_second0 doppler_at_second1 compute_doppler_freqs_table [OF h doppler_at_second0 doppler_at_second1] by blast
qed

text \<open>
  Claim C10. With \<open>channels = 1\<close> the divisor \<open>channels - 1\<close> of the per-channel interval
  is zero and \<open>compute_doppler_freqs\<close> raises \<open>ZeroDivisionError\<close> instead of returning
  a list of one channel; with \<open>channels \<ge> 2\<close> the divisor is not zero and, the two
  samples given, a list is returned.
\<close>

theorem compute_doppler_freqs_one_channel:
  "compute_doppler_freqs range_velocity AOS LOS 1 rx_freq tx_freq = Inl ZeroDivisionError
   \<and> (2 \<le> channels \<longrightarrow>
        (\<forall>p q. compute_doppler range_velocity AOS rx_freq tx_freq = Inr p
            \<longrightarrow> compute_doppler range_velocity LOS rx_freq tx_freq = Inr q
            \<longrightarrow> channels - 1 \<noteq> 0
              \<and> (\<exists>mems. compute_doppler_freqs range_velocity AOS LOS channels rx_freq tx_freq
                    = Inr mems)))"
proof -
  have one: "compute_doppler_freqs range_velocity AOS LOS 1 rx_freq tx_freq = Inl ZeroDivisionError"
    by (auto simp: compute_doppler_freqs_def split: sum.splits prod.splits
          dest: compute_doppler_error)
  have more: "\<exists>mems. compute_doppler_freqs range_velocity AOS LOS channels rx_freq tx_freq = Inr mems"
    if "2 \<le> channels" "compute_doppler range_velocity AOS rx_freq tx_freq = Inr p"
       "compute_doppler range_velocity LOS rx_freq tx_freq = Inr q" for p q
    using that by (cases p; cases q) (simp add: compute_doppler_freqs_def Let_def)
  show ?thesis
    using one more by auto
qed

theorem compute_doppler_freqs_one_channel_witness:
  "compute_doppler_freqs example_velocity 0 (1 / 86400) 1 145 435 = Inl ZeroDivisionError
   \<and> (2::int) \<le> 3
   \<and> compute_doppler example_velocity 0 145 435 =
       Inr (145 * 7000000000 / 299799458, - (435 * 7000000000 / 299785458))
   \<and> compute_doppler example_velocity (1 / 86400) 145 435 =
       Inr (- (145 * 7000000000 / 299785458), 435 * 7000000000 / 299799458)
   \<and> (3::int) - 1 \<noteq> 0
   \<and> (\<exists>mems. compute_doppler_freqs example_velocity 0 (1 / 86400) 3 145 435 = Inr mems)"
proof -
  have h: "(2::int) \<le> 3" by simp
  show ?thesis
    using h doppler_at_second0 doppler_at_second1
      compute_doppler_freqs_one_channel [of example_velocity 0 "1 / 86400" 145 435 3]
    by blast
qed

lemma unpack3_tuple_of: "unpack3 (tuple_of t) = Inl ValueError"
  by (simp add: tuple_of_def)

lemma shift_graph_loop_raises:
  "shift_graph_loop range_velocity AOS rx_freq tx_freq (i # rest) out_data \<noteq> Inr out"
  by (simp add: unpack3_tuple_of split: sum.splits)

text \<open>
  Claim C8. For a pass of at least one whole second, \<open>compute_shift_graph\<close> never returns
  its list: where \<open>compute_doppler\<close> returns its tuple of two values at AOS, unpacking it
  into three names raises \<open>ValueError\<close>. For a pass shorter than one second it returns
  the empty list.
\<close>

theorem compute_shift_graph_raises:
  "(1 \<le> \<lfloor>(LOS - AOS) * 86400\<rfloor> \<longrightarrow>
      (\<forall>out. compute_shift_graph range_velocity AOS LOS rx_freq tx_freq \<noteq> Inr out)
      \<and> (\<forall>p. compute_doppler range_velocity AOS rx_freq tx_freq = Inr p
            \<longrightarrow> compute_shift_graph range_velocity AOS LOS rx_freq tx_freq = Inl ValueError))
   \<and> (\<lfloor>(LOS - AOS) * 86400\<rfloor> < 1 \<longrightarrow>
        compute_shift_graph range_velocity AOS LOS rx_freq tx_freq = Inr [])"
proof -
  let ?n = "\<lfloor>(LOS - AOS) * 86400\<rfloor>"
  have run: "compute_shift_graph range_velocity AOS LOS rx_freq tx_freq =
      shift_graph_loop range_velocity AOS rx_freq tx_freq [0..?n - 1] []"
    by (simp add: compute_shift_graph_def Let_def intervals_eq)
  have long: "[0..?n - 1] = 0 # [1..?n - 1]" if "1 \<le> ?n"
    using that upto_rec1 [of 0 "?n - 1"] by simp
  have a: "compute_shift_graph range_velocity AOS LOS rx_freq tx_freq \<noteq> Inr out"
    if "1 \<le> ?n" for out
    unfolding run long [OF that] by (rule shift_graph_loop_raises)
  have b: "compute_shift_graph range_velocity AOS LOS rx_freq tx_freq = Inl ValueError"
    if "1 \<le> ?n" "compute_doppler range_velocity AOS rx_freq tx_freq = Inr p" for p
    unfolding run long [OF that(1)] using that(2) by (simp add: unpack3_tuple_of)
  have c: "compute_shift_graph range_velocity AOS LOS rx_freq tx_freq = Inr []"
    if "?n < 1"
    unfolding run using that by simp
  show ?thesis
    using a b c by blast
qed

theorem compute_shift_graph_raises_witness:
  "1 \<le> \<lfloor>(2 / 86400 - 0) * (86400::real)\<rfloor>
   \<and> compute_doppler example_velocity 0 145 435 =
       Inr (145 * 7000000000 / 299799458, - (435 * 7000000000 / 299785458))
   \<and> compute_shift_graph example_velocity 0 (2 / 86400) 145 435 = Inl ValueError
   \<and> \<lfloor>(1 / 172800 - 0) * (86400::real)\<rfloor> < 1
   \<and> compute_shift_graph example_velocity 0 (1 / 172800) 145 435 = Inr []"
proof -
  have long: "1 \<le> \<lfloor>(2 / 86400 - 0) * (86400::real)\<rfloor>" by simp
  have short: "\<lfloor>(1 / 172800 - 0) * (86400::real)\<rfloor> < 1" by simp
  show ?thesis
    using long short doppler_at_second0
      compute_shift_graph_raises [of "2 / 86400" 0 example_velocity 145 435]
      compute_shift_graph_raises [of "1 / 172800" 0 example_velocity 145 435]
    by blast
qed

section \<open>Properties of the channel switching\<close>

text \<open>
  The loop of \<open>best_channel\<close> after the entries \<open>pre\<close>, with \<open>ms\<close> still to visit: the
  index it holds is the first one of least distance among \<open>pre\<close>.
\<close>

lemma best_channel_loop_nearest:
  "best_channel_loop freq ms (int (length pre)) (best, best_diff) = (b, d) \<Longrightarrow>
     (best = -1 \<and> pre = []) \<or>
       (0 \<le> best \<and> best < int (length pre) \<and> best_diff = \<bar>fst ((pre @ ms) ! nat best) - freq\<bar>
          \<and> (\<forall>j < length pre. best_diff \<le> \<bar>fst ((pre @ ms) ! j) - freq\<bar>)) \<Longrightarrow>
     pre @ ms \<noteq> [] \<Longrightarrow>
     0 \<le> b \<and> b < int (length (pre @ ms)) \<and> d = \<bar>fst ((pre @ ms) ! nat b) - freq\<bar>
       \<and> (\<forall>j < length (pre @ ms). d \<le> \<bar>fst ((pre @ ms) ! j) - freq\<bar>)"
proof (induction ms arbitrary: pre best best_diff)
  case Nil
  then show ?case by auto
next
  case (Cons m ms)
  let ?diff = "\<bar>fst m - freq\<bar>"
  have app: "(pre @ [m]) @ ms = pre @ m # ms" by simp
  have len: "int (length (pre @ [m])) = int (length pre) + 1" by simp
  have at: "(pre @ m # ms) ! length pre = m" by simp
  show ?case
  proof (cases "?diff < best_diff \<or> best = -1")
    case True
    with Cons.prems(1)
    have run: "best_channel_loop freq ms (int (length (pre @ [m]))) (int (length pre), ?diff) = (b, d)"
      unfolding len by (simp add: Let_def)
    have inv: "(int (length pre) = -1 \<and> pre @ [m] = []) \<or>
       (0 \<le> int (length pre) \<and> int (length pre) < int (length (pre @ [m]))
          \<and> ?diff = \<bar>fst (((pre @ [m]) @ ms) ! nat (int (length pre))) - freq\<bar>
          \<and> (\<forall>j < length (pre @ [m]). ?diff \<le> \<bar>fst (((pre @ [m]) @ ms) ! j) - freq\<bar>))"
    proof -
      have "?diff \<le> \<bar>fst ((pre @ m # ms) ! j) - freq\<bar>" if "j < length (pre @ [m])" for j
      proof (cases "j < length pre")
        case True
        with Cons.prems(2) have "best_diff \<le> \<bar>fst ((pre @ m # ms) ! j) - freq\<bar>" by auto
        moreover from True Cons.prems(2) have "best \<noteq> -1" by auto
        ultimately show ?thesis using \<open>?diff < best_diff \<or> best = -1\<close> by auto
      next
        case False
        with that have "j = length pre" by simp
        then show ?thesis by (simp add: at)
      qed
      then show ?thesis by (simp add: at)
    qed
    from Cons.IH [OF run inv] show ?thesis unfolding app by auto
  next
    case False
    with Cons.prems(1)
    have run: "best_channel_loop freq ms (int (length (pre @ [m]))) (best, best_diff) = (b, d)"
      unfolding len by (simp add: Let_def)
    from False Cons.prems(2)
    have old: "0 \<le> best" "best < int (length pre)"
      "best_diff = \<bar>fst ((pre @ m # ms) ! nat best) - freq\<bar>"
      "\<forall>j < length pre. best_diff \<le> \<bar>fst ((pre @ m # ms) ! j) - freq\<bar>"
      by auto
    have "best_diff \<le> \<bar>fst ((pre @ m # ms) ! j) - freq\<bar>" if "j < length (pre @ [m])" for j
    proof (cases "j < length pre")
      case True
      with old(4) show ?thesis by simp
    next
      case False
      with that have "j = length pre" by simp
      with \<open>\<not> (?diff < best_diff \<or> best = -1)\<close> show ?thesis by (simp add: at)
    qed
    with old have inv: "(best = -1 \<and> pre @ [m] = []) \<or>
       (0 \<le> best \<and> best < int (length (pre @ [m]))
          \<and> best_diff = \<bar>fst (((pre @ [m]) @ ms) ! nat best) - freq\<bar>
          \<and> (\<forall>j < length (pre @ [m]). best_diff \<le> \<bar>fst (((pre @ [m]) @ ms) ! j) - freq\<bar>))"
      by simp
    from Cons.IH [OF run inv] show ?thesis unfolding app by auto
  qed
qed

lemma best_channel_nearest:
  assumes "mems \<noteq> []"
  shows "0 \<le> best_channel freq mems \<and> best_channel freq mems < int (length mems)
     \<and> (\<forall>j < length mems.
           \<bar>fst (mems ! nat (best_channel freq mems)) - freq\<bar> \<le> \<bar>fst (mems ! j) - freq\<bar>)"
proof -
  obtain b d where run: "best_channel_loop freq mems (int (length ([]::(real \<times> real) list))) (-1, 0) = (b, d)"
    by (cases "best_channel_loop freq mems 0 (-1, 0)") simp
  from best_channel_loop_nearest [OF run] assms
  have "0 \<le> b \<and> b < int (length mems) \<and> d = \<bar>fst (mems ! nat b) - freq\<bar>
       \<and> (\<forall>j < length mems. d \<le> \<bar>fst (mems ! j) - freq\<bar>)"
    by auto
  moreover from run have "best_channel freq mems = b"
    by (simp add: best_channel_def)
  ultimately show ?thesis by auto
qed

lemma shift_times_loop_append:
  "shift_times_loop rv AOS mems rx_freq tx_freq (xs @ ys) st =
     (case shift_times_loop rv AOS mems rx_freq tx_freq xs st of
        Inl e \<Rightarrow> Inl e
      | Inr st' \<Rightarrow> shift_times_loop rv AOS mems rx_freq tx_freq ys st')"
  by (induction xs arbitrary: st) (auto split: sum.splits)

lemma shift_times_step_times:
  "shift_times_step rv AOS mems rx_freq tx_freq i st = Inr st' \<Longrightarrow>
     map time (snd st') = map time (snd st)
     \<or> map time (snd st') = map time (snd st) @ [AOS + of_int i * SECOND]"
  by (auto simp: shift_times_step_def Let_def split: sum.splits prod.splits if_splits)

lemma shift_times_step_extends:
  "shift_times_step rv AOS mems rx_freq tx_freq i st = Inr st' \<Longrightarrow>
     \<exists>ext. snd st' = snd st @ ext"
  by (auto simp: shift_times_step_def Let_def split: sum.splits prod.splits if_splits)

lemma shift_times_loop_extends:
  "shift_times_loop rv AOS mems rx_freq tx_freq xs st = Inr st' \<Longrightarrow>
     \<exists>ext. snd st' = snd st @ ext"
proof (induction xs arbitrary: st)
  case Nil
  then show ?case by simp
next
  case (Cons i xs)
  then obtain st1 where s1: "shift_times_step rv AOS mems rx_freq tx_freq i st = Inr st1"
    and l1: "shift_times_loop rv AOS mems rx_freq tx_freq xs st1 = Inr st'"
    by (auto split: sum.splits)
  from shift_times_step_extends [OF s1] Cons.IH [OF l1] show ?case by auto
qed

lemma shift_times_loop_times:
  "shift_times_loop rv AOS mems rx_freq tx_freq xs st = Inr st' \<Longrightarrow>
     \<exists>js. subseq js xs
       \<and> map time (snd st') = map time (snd st) @ map (\<lambda>j. AOS + of_int j * SECOND) js"
proof (induction xs arbitrary: st)
  case Nil
  then show ?case by simp
next
  case (Cons i xs)
  then obtain st1 where s1: "shift_times_step rv AOS mems rx_freq tx_freq i st = Inr st1"
    and l1: "shift_times_loop rv AOS mems rx_freq tx_freq xs st1 = Inr st'"
    by (auto split: sum.splits)
  from Cons.IH [OF l1] obtain js where js: "subseq js xs"
    "map time (snd st') = map time (snd st1) @ map (\<lambda>j. AOS + of_int j * SECOND) js"
    by blast
  from shift_times_step_times [OF s1] show ?case
  proof
    assume "map time (snd st1) = map time (snd st)"
    with js have "subseq js (i # xs)
      \<and> map time (snd st') = map time (snd st) @ map (\<lambda>j. AOS + of_int j * SECOND) js"
      by (simp add: list_emb_Cons)
    then show ?thesis by blast
  next
    assume "map time (snd st1) = map time (snd st) @ [AOS + of_int i * SECOND]"
    with js have "subseq (i # js) (i # xs)
      \<and> map time (snd st') = map time (snd st) @ map (\<lambda>j. AOS + of_int j * SECOND) (i # js)"
      by simp
    then show ?thesis by blast
  qed
qed

lemma sorted_wrt_subseq:
  "subseq js xs \<Longrightarrow> sorted_wrt R xs \<Longrightarrow> sorted_wrt R js"
proof (induction rule: list_emb.induct)
  case (list_emb_Nil ys)
  then show ?case by simp
next
  case (list_emb_Cons xs ys y)
  then show ?case by simp
next
  case (list_emb_Cons2 x y xs ys)
  then have "x = y" "sorted_wrt R xs" "\<forall>z\<in>set ys. R y z" by auto
  moreover from list_emb_Cons2(2) have "set xs \<subseteq> set ys"
    by (auto elim: list_emb_set)
  ultimately show ?case by auto
qed

lemma best_at_second0: "best_channel (145 + (145 * 7000000000 / 299799458) / 1000000) example_mems = 1"
  by (simp add: best_channel_def example_mems_def Let_def)

lemma best_at_second1: "best_channel (145 + (- (145 * 7000000000 / 299785458)) / 1000000) example_mems = 0"
  by (simp add: best_channel_def example_mems_def Let_def)

lemma best_rev_at_second0: "best_channel (145 + (145 * 7000000000 / 299799458) / 1000000) (rev example_mems) = 0"
  by (simp add: best_channel_def example_mems_def Let_def)

lemma best_rev_at_second1: "best_channel (145 + (- (145 * 7000000000 / 299785458)) / 1000000) (rev example_mems) = 1"
  by (simp add: best_channel_def example_mems_def Let_def)

lemma example_intervals: "\<lfloor>(2 / 86400 - 0) / SECOND\<rfloor> = 2"
  by (simp add: SECOND_eq)

lemma date_of_second1: "0 + real_of_int 1 * SECOND = 1 / 86400"
  by (simp add: SECOND_eq)

lemma step_at_second0: "shift_times_step example_velocity 0 example_mems 145 435 0 (-1, []) =
   Inr (1, [\<lparr>mem = 1, time = 0, rx = 145 + 145 * 7000 / 299799458,
              tx = 435 - 435 * 7000 / 299785458\<rparr>])"
  using best_at_second0 by (simp add: shift_times_step_def doppler_at_second0 Let_def) (simp add: example_mems_def)

lemma step_at_second1: "shift_times_step example_velocity 0 example_mems 145 435 1
     (1, [\<lparr>mem = 1, time = 0, rx = 145 + 145 * 7000 / 299799458,
              tx = 435 - 435 * 7000 / 299785458\<rparr>]) =
   Inr (1, [\<lparr>mem = 1, time = 0, rx = 145 + 145 * 7000 / 299799458,
              tx = 435 - 435 * 7000 / 299785458\<rparr>])"
  by (simp add: shift_times_step_def SECOND_eq doppler_at_second1 Let_def) (simp add: example_mems_def)

lemma step_rev_at_second0:
  "shift_times_step example_velocity 0 (rev example_mems) 145 435 0 (-1, []) =
   Inr (0, [\<lparr>mem = 0, time = 0, rx = 145 + 145 * 7000 / 299799458,
              tx = 435 - 435 * 7000 / 299785458\<rparr>])"
  using best_rev_at_second0 by (simp add: shift_times_step_def doppler_at_second0 Let_def) (simp add: example_mems_def)

lemma step_rev_at_second1:
  "shift_times_step example_velocity 0 (rev example_mems) 145 435 1
     (0, [\<lparr>mem = 0, time = 0, rx = 145 + 145 * 7000 / 299799458,
              tx = 435 - 435 * 7000 / 299785458\<rparr>]) =
   Inr (1, [\<lparr>mem = 0, time = 0, rx = 145 + 145 * 7000 / 299799458,
              tx = 435 - 435 * 7000 / 299785458\<rparr>,
            \<lparr>mem = 1, time = 1 / 86400, rx = 145 - 145 * 7000 / 299785458,
              tx = 435 + 435 * 7000 / 299799458\<rparr>])"
  using best_rev_at_second1 by (simp add: shift_times_step_def SECOND_eq doppler_at_second1 Let_def) (simp add: example_mems_def)

lemma upto_0_1: "[0..1] = [0, 1::int]"
  by (simp add: upto_rec1)

lemma example_times_rev:
  "compute_shift_times example_velocity 0 (2 / 86400) (rev example_mems) 145 435 =
   Inr [\<lparr>mem = 0, time = 0, rx = 145 + 145 * 7000 / 299799458,
           tx = 435 - 435 * 7000 / 299785458\<rparr>,
        \<lparr>mem = 1, time = 1 / 86400, rx = 145 - 145 * 7000 / 299785458,
           tx = 435 + 435 * 7000 / 299799458\<rparr>]"
proof -
  have "shift_times_loop example_velocity 0 (rev example_mems) 145 435 [0..1] (-1, []) =
     Inr (1, [\<lparr>mem = 0, time = 0, rx = 145 + 145 * 7000 / 299799458,
                tx = 435 - 435 * 7000 / 299785458\<rparr>,
              \<lparr>mem = 1, time = 1 / 86400, rx = 145 - 145 * 7000 / 299785458,
                tx = 435 + 435 * 7000 / 299799458\<rparr>])"
    unfolding upto_0_1 by (simp only: shift_times_loop.simps step_rev_at_second0 step_rev_at_second1 sum.case)
  then show ?thesis
    unfolding compute_shift_times_def Let_def example_intervals by simp
qed

text \<open>
  Claim C5, as stated: whenever the channel nearest the shifted receive frequency at
  second \<open>i\<close> differs from the channel selected after seconds \<open>0..i - 1\<close>, a switch entry
  is appended at second \<open>i\<close>. The loop appends only while the selected channel is not the
  last one of \<open>mems\<close>: in the example pass with the channels in ascending order, second 0
  selects channel 1, the last one; at second 1 the nearest channel is channel 0, and no
  entry is appended.
\<close>

theorem shift_times_last_channel_counterexample:
  "example_mems \<noteq> [] \<and> (0::int) \<le> 1 \<and> 1 < \<lfloor>(2 / 86400 - 0) / SECOND\<rfloor>
   \<and> shift_times_loop example_velocity 0 example_mems 145 435 [0..1 - 1] (-1, [])
       = Inr (1, [\<lparr>mem = 1, time = 0, rx = 145 + 145 * 7000 / 299799458,
                    tx = 435 - 435 * 7000 / 299785458\<rparr>])
   \<and> compute_doppler example_velocity (0 + of_int 1 * SECOND) 145 435
       = Inr (- (145 * 7000000000 / 299785458), 435 * 7000000000 / 299799458)
   \<and> best_channel (145 + (- (145 * 7000000000 / 299785458)) / 1000000) example_mems = 0
   \<and> (0::int) \<noteq> 1
   \<and> shift_times_loop example_velocity 0 example_mems 145 435 [0..1] (-1, [])
       = Inr (1, [\<lparr>mem = 1, time = 0, rx = 145 + 145 * 7000 / 299799458,
                    tx = 435 - 435 * 7000 / 299785458\<rparr>])
   \<and> compute_shift_times example_velocity 0 (2 / 86400) example_mems 145 435
       = Inr [\<lparr>mem = 1, time = 0, rx = 145 + 145 * 7000 / 299799458,
                tx = 435 - 435 * 7000 / 299785458\<rparr>]"
proof -
  have m: "example_mems \<noteq> []" by (simp add: example_mems_def)
  have l0: "shift_times_loop example_velocity 0 example_mems 145 435 [0..1 - 1] (-1, [])
       = Inr (1, [\<lparr>mem = 1, time = 0, rx = 145 + 145 * 7000 / 299799458,
                    tx = 435 - 435 * 7000 / 299785458\<rparr>])"
    by (simp only: diff_self upto_single shift_times_loop.simps step_at_second0 sum.case)
  have u: "[0..1] = [0, 1::int]" by (simp add: upto_rec1)
  have l1: "shift_times_loop example_velocity 0 example_mems 145 435 [0..1] (-1, [])
       = Inr (1, [\<lparr>mem = 1, time = 0, rx = 145 + 145 * 7000 / 299799458,
                    tx = 435 - 435 * 7000 / 299785458\<rparr>])"
    unfolding u by (simp only: shift_times_loop.simps step_at_second0 step_at_second1 sum.case)
  have c: "compute_shift_times example_velocity 0 (2 / 86400) example_mems 145 435
       = Inr [\<lparr>mem = 1, time = 0, rx = 145 + 145 * 7000 / 299799458,
                tx = 435 - 435 * 7000 / 299785458\<rparr>]"
    unfolding compute_shift_times_def Let_def example_intervals using l1 by simp
  show ?thesis
    using m l0 l1 c doppler_at_second1 best_at_second1 example_intervals unfolding date_of_second1 by simp
qed

text \<open>
  Claim C5, amended. For a non-empty \<open>mems\<close> and a sampled second \<open>i\<close> of the pass: if the
  channel nearest the shifted receive frequency at second \<open>i\<close> differs from the channel
  selected after seconds \<open>0..i - 1\<close> (none, \<open>-1\<close>, initially), and the selected channel is
  not the last channel of \<open>mems\<close> (\<open>curr_mem < len(mems) - 1\<close>), then an entry with the
  index of that nearest channel and the time of second \<open>i\<close> is appended at second \<open>i\<close>,
  and it is in the list returned. The nearest channel is an index of \<open>mems\<close> whose receive
  frequency has the least distance from the shifted receive frequency.
\<close>

theorem shift_times_switch:
  assumes mems: "mems \<noteq> []"
    and i: "0 \<le> i" "i < \<lfloor>(LOS - AOS) / SECOND\<rfloor>"
    and before: "shift_times_loop range_velocity AOS mems rx_freq tx_freq [0..i - 1] (-1, [])
                   = Inr (curr_mem, switch_times)"
    and now: "compute_doppler range_velocity (AOS + of_int i * SECOND) rx_freq tx_freq
                   = Inr (rx_shift, tx_shift)"
    and best: "best_mem = best_channel (rx_freq + rx_shift / 1000000) mems"
    and differs: "best_mem \<noteq> curr_mem"
    and not_last: "curr_mem < int (length mems) - 1"
  shows "shift_times_loop range_velocity AOS mems rx_freq tx_freq [0..i] (-1, [])
           = Inr (best_mem,
                  switch_times @ [\<lparr>mem = best_mem, time = AOS + of_int i * SECOND,
                                    rx = rx_freq + rx_shift / 1000000,
                                    tx = tx_freq + tx_shift / 1000000\<rparr>])
     \<and> (\<forall>res. compute_shift_times range_velocity AOS LOS mems rx_freq tx_freq = Inr res \<longrightarrow>
            \<lparr>mem = best_mem, time = AOS + of_int i * SECOND,
             rx = rx_freq + rx_shift / 1000000, tx = tx_freq + tx_shift / 1000000\<rparr> \<in> set res)
     \<and> 0 \<le> best_mem \<and> best_mem < int (length mems)
     \<and> (\<forall>j < length mems.
           \<bar>fst (mems ! nat best_mem) - (rx_freq + rx_shift / 1000000)\<bar>
             \<le> \<bar>fst (mems ! j) - (rx_freq + rx_shift / 1000000)\<bar>)"
proof -
  let ?n = "\<lfloor>(LOS - AOS) / SECOND\<rfloor>"
  let ?e = "\<lparr>mem = best_mem, time = AOS + of_int i * SECOND,
             rx = rx_freq + rx_shift / 1000000, tx = tx_freq + tx_shift / 1000000\<rparr>"
  let ?loop = "shift_times_loop range_velocity AOS mems rx_freq tx_freq"
  have split1: "[0..i] = [0..i - 1] @ [i]"
    using i(1) by (simp add: upto_rec2)
  have step: "shift_times_step range_velocity AOS mems rx_freq tx_freq i (curr_mem, switch_times)
      = Inr (best_mem, switch_times @ [?e])"
    using now best differs not_last by (simp add: shift_times_step_def Let_def)
  have upto_i: "?loop [0..i] (-1, []) = Inr (best_mem, switch_times @ [?e])"
    unfolding split1 shift_times_loop_append using before step by simp
  have final: "?e \<in> set res"
    if "compute_shift_times range_velocity AOS LOS mems rx_freq tx_freq = Inr res" for res
  proof -
    from that obtain st where loop: "?loop [0..?n - 1] (-1, []) = Inr st" and res: "res = snd st"
      by (auto simp: compute_shift_times_def Let_def split: sum.splits)
    have split2: "[0..?n - 1] = [0..i] @ [i + 1..?n - 1]"
      using i upto_split2 [of 0 i "?n - 1"] by simp
    from loop have "?loop [i + 1..?n - 1] (best_mem, switch_times @ [?e]) = Inr st"
      unfolding split2 shift_times_loop_append upto_i by simp
    from shift_times_loop_extends [OF this] show ?thesis
      by (auto simp: res)
  qed
  show ?thesis
    using upto_i final best_channel_nearest [OF mems, of "rx_freq + rx_shift / 1000000"]
    unfolding best by blast
qed

theorem shift_times_switch_witness:
  "rev example_mems \<noteq> [] \<and> (0::int) \<le> 1 \<and> 1 < \<lfloor>(2 / 86400 - 0) / SECOND\<rfloor>
   \<and> shift_times_loop example_velocity 0 (rev example_mems) 145 435 [0..1 - 1] (-1, [])
       = Inr (0, [\<lparr>mem = 0, time = 0, rx = 145 + 145 * 7000 / 299799458,
                    tx = 435 - 435 * 7000 / 299785458\<rparr>])
   \<and> compute_doppler example_velocity (0 + of_int 1 * SECOND) 145 435
       = Inr (- (145 * 7000000000 / 299785458), 435 * 7000000000 / 299799458)
   \<and> 1 = best_channel (145 + (- (145 * 7000000000 / 299785458)) / 1000000) (rev example_mems)
   \<and> (1::int) \<noteq> 0 \<and> 0 < int (length (rev example_mems)) - 1
   \<and> shift_times_loop example_velocity 0 (rev example_mems) 145 435 [0..1] (-1, [])
       = Inr (1, [\<lparr>mem = 0, time = 0, rx = 145 + 145 * 7000 / 299799458,
                    tx = 435 - 435 * 7000 / 299785458\<rparr>]
                 @ [\<lparr>mem = 1, time = 0 + of_int 1 * SECOND,
                      rx = 145 + (- (145 * 7000000000 / 299785458)) / 1000000,
                      tx = 435 + (435 * 7000000000 / 299799458) / 1000000\<rparr>])"
proof -
  have m: "rev example_mems \<noteq> []" by (simp add: example_mems_def)
  have i0: "(0::int) \<le> 1" by simp
  have i1: "1 < \<lfloor>(2 / 86400 - 0) / SECOND\<rfloor>" unfolding example_intervals by simp
  have before: "shift_times_loop example_velocity 0 (rev example_mems) 145 435 [0..1 - 1] (-1, [])
       = Inr (0, [\<lparr>mem = 0, time = 0, rx = 145 + 145 * 7000 / 299799458,
                    tx = 435 - 435 * 7000 / 299785458\<rparr>])"
    by (simp only: diff_self upto_single shift_times_loop.simps step_rev_at_second0 sum.case)
  have now: "compute_doppler example_velocity (0 + of_int 1 * SECOND) 145 435
       = Inr (- (145 * 7000000000 / 299785458), 435 * 7000000000 / 299799458)"
    unfolding date_of_second1 by (rule doppler_at_second1)
  have best: "1 = best_channel (145 + (- (145 * 7000000000 / 299785458)) / 1000000) (rev example_mems)"
    by (simp only: best_rev_at_second1)
  have differs: "(1::int) \<noteq> 0" by simp
  have not_last: "0 < int (length (rev example_mems)) - 1" by (simp add: example_mems_def)
  show ?thesis
    using m i0 i1 before now best differs not_last
      shift_times_switch [OF m i0 i1 before now best differs not_last]
    by blast
qed

text \<open>
  Claim C6. Every entry that \<open>compute_shift_times\<close> returns carries the time
  \<open>AOS + i * (1 / 86400)\<close> days of a second \<open>i\<close> with
  \<open>0 \<le> i < floor ((LOS - AOS) * 86400)\<close>; the times of successive entries increase
  strictly; every time lies in the interval from AOS (included) to LOS (excluded).
\<close>

theorem compute_shift_times_walk:
  assumes run: "compute_shift_times range_velocity AOS LOS mems rx_freq tx_freq = Inr res"
  shows "(\<forall>e\<in>set res. \<exists>i. 0 \<le> i \<and> i < \<lfloor>(LOS - AOS) * 86400\<rfloor>
             \<and> time e = AOS + of_int i * (1 / 86400))
     \<and> sorted_wrt (<) (map time res)
     \<and> (\<forall>e\<in>set res. AOS \<le> time e \<and> time e < LOS)"
proof -
  let ?n = "\<lfloor>(LOS - AOS) * 86400\<rfloor>"
  from run obtain st where
    loop: "shift_times_loop range_velocity AOS mems rx_freq tx_freq [0..?n - 1] (-1, []) = Inr st"
    and res: "res = snd st"
    by (auto simp: compute_shift_times_def Let_def SECOND_eq split: sum.splits)
  from shift_times_loop_times [OF loop] obtain js where
    js: "subseq js [0..?n - 1]" and
    times: "map time res = map (\<lambda>j. AOS + of_int j * SECOND) js"
    by (auto simp: res)
  have range: "0 \<le> j \<and> j < ?n" if "j \<in> set js" for j
    using js that by (auto elim: list_emb_set)
  have a: "\<exists>i. 0 \<le> i \<and> i < ?n \<and> time e = AOS + of_int i * (1 / 86400)" if "e \<in> set res" for e
  proof -
    from that have "time e \<in> set (map time res)" by simp
    then obtain j where "j \<in> set js" "time e = AOS + of_int j * SECOND"
      unfolding times by auto
    with range show ?thesis by (auto simp: SECOND_eq)
  qed
  have "sorted_wrt (<) js"
    using sorted_wrt_subseq [OF js] by simp
  then have "sorted_wrt (\<lambda>x y. AOS + of_int x * SECOND < AOS + real_of_int y * SECOND) js"
    by (rule sorted_wrt_mono_rel [rotated]) (simp add: SECOND_eq)
  then have b: "sorted_wrt (<) (map time res)"
    unfolding times by (simp add: sorted_wrt_map)
  have c: "AOS \<le> time e \<and> time e < LOS" if "e \<in> set res" for e
  proof -
    from a [OF that] obtain i where i: "0 \<le> i" "i < ?n" "time e = AOS + of_int i * (1 / 86400)"
      by blast
    from i(2) have "i + 1 \<le> ?n" by simp
    then have "real_of_int (i + 1) \<le> of_int ?n" by (simp only: of_int_le_iff)
    then have "of_int i + 1 \<le> (of_int ?n :: real)" by simp
    also have "\<dots> \<le> (LOS - AOS) * 86400" by (rule of_int_floor_le)
    finally have "of_int i < (LOS - AOS) * 86400" by simp
    then have "of_int i * (1 / 86400) < LOS - AOS" by (simp add: field_simps)
    moreover from i(1) have "0 \<le> real_of_int i * (1 / 86400)" by simp
    ultimately show ?thesis using i(3) by simp
  qed
  show ?thesis using a b c by blast
qed

theorem compute_shift_times_walk_witness:
  "compute_shift_times example_velocity 0 (2 / 86400) (rev example_mems) 145 435 =
     Inr [\<lparr>mem = 0, time = 0, rx = 145 + 145 * 7000 / 299799458,
             tx = 435 - 435 * 7000 / 299785458\<rparr>,
          \<lparr>mem = 1, time = 1 / 86400, rx = 145 - 145 * 7000 / 299785458,
             tx = 435 + 435 * 7000 / 299799458\<rparr>]
   \<and> sorted_wrt (<) [0, 1 / (86400::real)]
   \<and> (0::real) \<le> 1 / 86400 \<and> 1 / 86400 < 2 / (86400::real)"
  using example_times_rev compute_shift_times_walk [OF example_times_rev]
  by simp

section \<open>Properties of the averaging step\<close>

lemma length_add_mem_set: "length (add_mem_set mem_set avg_mems) = length avg_mems"
  by (induction mem_set avg_mems rule: add_mem_set.induct) simp_all

lemma nth_add_mem_set:
  "k < length mem_set \<Longrightarrow> k < length avg_mems \<Longrightarrow>
     add_mem_set mem_set avg_mems ! k =
       (fst (avg_mems ! k) + fst (mem_set ! k), snd (avg_mems ! k) + snd (mem_set ! k))"
proof (induction mem_set avg_mems arbitrary: k rule: add_mem_set.induct)
  case (3 m mem_set avg_mem avg_mems)
  then show ?case by (cases k) simp_all
qed simp_all

lemma sum_mem_sets_nth:
  "\<forall>s\<in>set memory_sets. length s = length avg_mems \<Longrightarrow>
     length (sum_mem_sets memory_sets avg_mems) = length avg_mems
     \<and> (\<forall>k < length avg_mems.
           sum_mem_sets memory_sets avg_mems ! k =
             (fst (avg_mems ! k) + (\<Sum>s\<leftarrow>memory_sets. fst (s ! k)),
              snd (avg_mems ! k) + (\<Sum>s\<leftarrow>memory_sets. snd (s ! k))))"
proof (induction memory_sets arbitrary: avg_mems)
  case Nil
  then show ?case by simp
next
  case (Cons mem_set memory_sets)
  let ?avg = "add_mem_set mem_set avg_mems"
  have len: "length ?avg = length avg_mems"
    by (rule length_add_mem_set)
  from Cons.prems have same: "length mem_set = length avg_mems"
    and rest: "\<forall>s\<in>set memory_sets. length s = length ?avg"
    by (simp_all add: len)
  from Cons.IH [OF rest] have
    ih_len: "length (sum_mem_sets memory_sets ?avg) = length ?avg" and
    ih_nth: "\<And>k. k < length ?avg \<Longrightarrow> sum_mem_sets memory_sets ?avg ! k =
             (fst (?avg ! k) + (\<Sum>s\<leftarrow>memory_sets. fst (s ! k)),
              snd (?avg ! k) + (\<Sum>s\<leftarrow>memory_sets. snd (s ! k)))"
    by auto
  have "sum_mem_sets (mem_set # memory_sets) avg_mems ! k =
             (fst (avg_mems ! k) + (\<Sum>s\<leftarrow>mem_set # memory_sets. fst (s ! k)),
              snd (avg_mems ! k) + (\<Sum>s\<leftarrow>mem_set # memory_sets. snd (s ! k)))"
    if "k < length avg_mems" for k
    using that ih_nth [of k] nth_add_mem_set [of k mem_set avg_mems] same len
    by (simp add: add.assoc)
  then show ?case
    using ih_len len by simp
qed

lemma divide_mems_map:
  "total_tests \<noteq> 0 \<Longrightarrow>
     divide_mems total_tests avg_mems =
       Inr (map (\<lambda>m. (fst m / of_int total_tests, snd m / of_int total_tests)) avg_mems)"
  by (induction avg_mems) simp_all

lemma example_average:
  "average_memory 2 2 example_memory_sets = Inr [(2, 4), (4, 6)]"
  by (simp add: average_memory_def example_memory_sets_def upto_rec1)

text \<open>
  Claim C7. When exactly \<open>total_tests\<close> memory sets, each of length \<open>channels\<close>, have been
  collected, the averaging step of \<open>main\<close> gives for every channel index \<open>k\<close> a pair whose
  receive entry is the arithmetic mean of the receive entries at index \<open>k\<close> of the sets,
  and whose transmit entry is the mean of their transmit entries. \<open>main\<close> reaches the step
  with at least one set collected: with \<open>total_tests \<le> 0\<close> the name \<open>next_pass\<close> is
  unbound at the test before it.
\<close>

theorem average_memory_mean:
  assumes tests: "0 < total_tests"
    and collected: "int (length memory_sets) = total_tests"
    and lengths: "\<forall>mem_set\<in>set memory_sets. int (length mem_set) = channels"
  shows "\<exists>avg. average_memory channels total_tests memory_sets = Inr avg
           \<and> int (length avg) = channels
           \<and> (\<forall>k < length avg.
                 fst (avg ! k) = (\<Sum>s\<leftarrow>memory_sets. fst (s ! k)) / of_int (int (length memory_sets))
               \<and> snd (avg ! k) = (\<Sum>s\<leftarrow>memory_sets. snd (s ! k)) / of_int (int (length memory_sets)))"
proof -
  let ?zero = "map (\<lambda>i. (0::real, 0::real)) [0..channels - 1]"
  let ?sum = "sum_mem_sets memory_sets ?zero"
  let ?avg = "map (\<lambda>m. (fst m / of_int total_tests, snd m / of_int total_tests)) ?sum"
  from tests collected obtain s0 where "s0 \<in> set memory_sets"
    by (cases memory_sets) auto
  with lengths have ch: "0 \<le> channels" by auto
  then have zlen: "int (length ?zero) = channels" by simp
  with lengths have "\<forall>s\<in>set memory_sets. length s = length ?zero"
    by (metis of_nat_eq_iff)
  from sum_mem_sets_nth [OF this] have
    slen: "length ?sum = length ?zero" and
    snth: "\<And>k. k < length ?zero \<Longrightarrow> ?sum ! k =
             (fst (?zero ! k) + (\<Sum>s\<leftarrow>memory_sets. fst (s ! k)),
              snd (?zero ! k) + (\<Sum>s\<leftarrow>memory_sets. snd (s ! k)))"
    by auto
  have run: "average_memory channels total_tests memory_sets = Inr ?avg"
    using tests by (simp add: average_memory_def divide_mems_map)
  have alen: "int (length ?avg) = channels"
    using slen zlen by simp
  have anth: "fst (?avg ! k) = (\<Sum>s\<leftarrow>memory_sets. fst (s ! k)) / of_int (int (length memory_sets))
            \<and> snd (?avg ! k) = (\<Sum>s\<leftarrow>memory_sets. snd (s ! k)) / of_int (int (length memory_sets))"
    if "k < length ?avg" for k
  proof -
    from that slen have k: "k < length ?zero" "k < length ?sum" by simp_all
    have z: "?zero ! k = (0, 0)" using k(1) by (simp only: nth_map length_map)
    show ?thesis
      using snth [OF k(1)] k(2) z collected by (simp only: nth_map fst_conv snd_conv add_0)
  qed
  show ?thesis
    using run alen anth by blast
qed

theorem average_memory_mean_witness:
  "(0::int) < 2
   \<and> int (length example_memory_sets) = 2
   \<and> int (length (example_memory_sets ! 0)) = 2
   \<and> int (length (example_memory_sets ! 1)) = 2
   \<and> (\<exists>avg. average_memory 2 2 example_memory_sets = Inr avg
         \<and> int (length avg) = 2
         \<and> fst (avg ! 0) = (1 + 3) / 2 \<and> snd (avg ! 0) = (2 + 6) / 2
         \<and> fst (avg ! 1) = (3 + 5) / 2 \<and> snd (avg ! 1) = (4 + 8) / 2)"
proof -
  have t: "(0::int) < 2" by simp
  have c: "int (length example_memory_sets) = 2"
    by (simp add: example_memory_sets_def)
  have l: "\<forall>mem_set\<in>set example_memory_sets. int (length mem_set) = 2"
    by (simp add: example_memory_sets_def)
  have l0: "int (length (example_memory_sets ! 0)) = 2"
    and l1: "int (length (example_memory_sets ! 1)) = 2"
    by (simp_all add: example_memory_sets_def)
  from average_memory_mean [OF t c l] obtain avg where
    run: "average_memory 2 2 example_memory_sets = Inr avg" and
    len: "int (length avg) = 2" and
    mean: "\<And>k. k < length avg \<Longrightarrow>
               fst (avg ! k) = (\<Sum>s\<leftarrow>example_memory_sets. fst (s ! k))
                                 / of_int (int (length example_memory_sets))
             \<and> snd (avg ! k) = (\<Sum>s\<leftarrow>example_memory_sets. snd (s ! k))
                                 / of_int (int (length example_memory_sets))"
    by blast
  from len have k: "0 < length avg" "1 < length avg" by simp_all
  have m0: "fst (avg ! 0) = (1 + 3) / 2 \<and> snd (avg ! 0) = (2 + 6) / 2"
    using mean [OF k(1)] by (simp add: example_memory_sets_def)
  have m1: "fst (avg ! 1) = (3 + 5) / 2 \<and> snd (avg ! 1) = (4 + 8) / 2"
    using mean [OF k(2)] by (simp add: example_memory_sets_def)
  show ?thesis
    using t c l0 l1 run len m0 m1 by blast
qed

section \<open>Properties of the search for a high pass\<close>

lemma high_pass_loop_done:
  "\<not> elevation < min_elevation \<Longrightarrow> 0 < limit \<Longrightarrow>
     high_pass_loop np min_elevation limit date elevation next_pass = Some next_pass"
  by (subst high_pass_loop.simps) simp

lemma high_pass_loop_raise:
  "elevation < min_elevation \<Longrightarrow> 0 < limit \<Longrightarrow> np date = Inl e \<Longrightarrow>
     high_pass_loop np min_elevation limit date elevation next_pass = Some None"
  by (subst high_pass_loop.simps) simp

lemma high_pass_loop_step:
  "elevation < min_elevation \<Longrightarrow> 0 < limit \<Longrightarrow> np date = Inr p \<Longrightarrow>
     high_pass_loop np min_elevation limit date elevation next_pass =
       high_pass_loop np min_elevation limit (set_time p) (elevation_of p) (Some p)"
  by (subst high_pass_loop.simps) simp

lemma low_pass_Suc:
  assumes "\<forall>j<Suc k. low_pass min_elevation (kth_pass np date j)"
  obtains q where "np date = Inr q" "elevation_of q < min_elevation"
    "\<forall>j<k. low_pass min_elevation (kth_pass np (set_time q) j)"
proof -
  from assms have "low_pass min_elevation (kth_pass np date 0)" by blast
  then obtain q where q: "np date = Inr q" "elevation_of q < min_elevation"
    by (auto simp: low_pass_def split: sum.splits)
  have "low_pass min_elevation (kth_pass np (set_time q) j)" if "j < k" for j
  proof -
    from that have "Suc j < Suc k" by simp
    with assms have "low_pass min_elevation (kth_pass np date (Suc j))" by blast
    with q(1) show ?thesis by simp
  qed
  with q that show ?thesis by blast
qed

lemma high_pass_loop_found:
  "0 < limit \<Longrightarrow> elevation < min_elevation \<Longrightarrow>
     \<forall>j<k. low_pass min_elevation (kth_pass np date j) \<Longrightarrow>
     kth_pass np date k = Inr p \<Longrightarrow> \<not> elevation_of p < min_elevation \<Longrightarrow>
     high_pass_loop np min_elevation limit date elevation next_pass = Some (Some p)"
proof (induction k arbitrary: date elevation next_pass)
  case 0
  then have "np date = Inr p" by simp
  with 0 show ?case
    by (simp add: high_pass_loop_step high_pass_loop_done)
next
  case (Suc k)
  from Suc.prems(3) obtain q where q: "np date = Inr q" "elevation_of q < min_elevation"
    "\<forall>j<k. low_pass min_elevation (kth_pass np (set_time q) j)"
    by (rule low_pass_Suc)
  from Suc.prems(4) q(1) have "kth_pass np (set_time q) k = Inr p" by simp
  from Suc.IH [OF Suc.prems(1) q(2) q(3) this Suc.prems(5)]
  show ?case
    using Suc.prems(1,2) q(1) by (simp add: high_pass_loop_step)
qed

lemma high_pass_loop_raised:
  "0 < limit \<Longrightarrow> elevation < min_elevation \<Longrightarrow>
     \<forall>j<k. low_pass min_elevation (kth_pass np date j) \<Longrightarrow>
     kth_pass np date k = Inl e \<Longrightarrow>
     high_pass_loop np min_elevation limit date elevation next_pass = Some None"
proof (induction k arbitrary: date elevation next_pass)
  case 0
  then have "np date = Inl e" by simp
  with 0 show ?case
    by (simp add: high_pass_loop_raise)
next
  case (Suc k)
  from Suc.prems(3) obtain q where q: "np date = Inr q" "elevation_of q < min_elevation"
    "\<forall>j<k. low_pass min_elevation (kth_pass np (set_time q) j)"
    by (rule low_pass_Suc)
  from Suc.prems(4) q(1) have "kth_pass np (set_time q) k = Inl e" by simp
  from Suc.IH [OF Suc.prems(1) q(2) q(3) this]
  show ?case
    using Suc.prems(1,2) q(1) by (simp add: high_pass_loop_step)
qed

lemma stops_at_Suc:
  assumes "np date = Inr q" "elevation_of q < min_elevation"
    "stops_at np min_elevation (set_time q) k r"
  shows "stops_at np min_elevation date (Suc k) r"
proof -
  have "low_pass min_elevation (kth_pass np date j)" if "j < Suc k" for j
  proof (cases j)
    case 0
    with assms(1,2) show ?thesis by (simp add: low_pass_def)
  next
    case (Suc i)
    with that assms(1,3) show ?thesis by (simp add: stops_at_def)
  qed
  with assms(1,3) show ?thesis by (simp add: stops_at_def)
qed

lemma high_pass_loop_returns:
  assumes run: "high_pass_loop np0 min_elevation0 limit0 date0 elevation0 next_pass0 = Some r0"
  shows "0 < limit0 \<longrightarrow>
       (if elevation0 < min_elevation0 then \<exists>k. stops_at np0 min_elevation0 date0 k r0
        else r0 = next_pass0)"
proof (rule high_pass_loop.raw_induct
         [where P = "\<lambda>np min_elevation limit date elevation next_pass r.
                       0 < limit \<longrightarrow>
                         (if elevation < min_elevation
                          then \<exists>k. stops_at np min_elevation date k r
                          else r = next_pass)", OF _ run])
  fix f :: "(real \<Rightarrow> error + pass_info) \<Rightarrow> real \<Rightarrow> int \<Rightarrow> real \<Rightarrow> real \<Rightarrow> pass_info option
              \<Rightarrow> pass_info option option"
    and np min_elevation limit date elevation next_pass r
  assume ih: "\<And>np min_elevation limit date elevation next_pass r.
      f np min_elevation limit date elevation next_pass = Some r \<Longrightarrow>
      0 < limit \<longrightarrow>
        (if elevation < min_elevation then \<exists>k. stops_at np min_elevation date k r
         else r = next_pass)"
    and body: "(if elevation < min_elevation \<and> 0 < limit
      then case np date of
             Inl e \<Rightarrow> Some None
           | Inr p \<Rightarrow> f np min_elevation (limit - 0) (set_time p) (elevation_of p) (Some p)
      else Some (if 0 < limit then next_pass else None)) = Some r"
  show "0 < limit \<longrightarrow>
        (if elevation < min_elevation then \<exists>k. stops_at np min_elevation date k r
         else r = next_pass)"
  proof (intro impI)
    assume limit: "0 < limit"
    show "if elevation < min_elevation then \<exists>k. stops_at np min_elevation date k r
          else r = next_pass"
    proof (cases "elevation < min_elevation")
      case False
      with body limit show ?thesis by simp
    next
      case True
      show ?thesis
      proof (cases "np date")
        case (Inl e)
        with body True limit have "r = None" by simp
        with Inl have "stops_at np min_elevation date 0 r" by (simp add: stops_at_def)
        with True show ?thesis by auto
      next
        case (Inr p)
        with body True limit
        have "f np min_elevation limit (set_time p) (elevation_of p) (Some p) = Some r"
          by simp
        from ih [OF this] limit
        have next_state: "if elevation_of p < min_elevation
                  then \<exists>k. stops_at np min_elevation (set_time p) k r else r = Some p"
          by simp
        show ?thesis
        proof (cases "elevation_of p < min_elevation")
          case low: True
          with next_state obtain k where "stops_at np min_elevation (set_time p) k r" by auto
          from stops_at_Suc [OF Inr low this] True show ?thesis by auto
        next
          case high: False
          with next_state Inr have "stops_at np min_elevation date 0 r"
            by (simp add: stops_at_def)
          with True show ?thesis by auto
        qed
      qed
    qed
  qed
qed

lemma elevation_low: "elevation_of example_low_pass = 0"
  by (simp add: elevation_of_def example_low_pass_def)

lemma elevation_high: "elevation_of example_high_pass = 90"
  by (simp add: elevation_of_def example_high_pass_def)

lemma stops_at_not_low:
  "stops_at np min_elevation date k r \<Longrightarrow> \<not> low_pass min_elevation (kth_pass np date k)"
  by (auto simp: stops_at_def low_pass_def split: sum.splits)

lemma stops_at_returns:
  assumes "0 < limit" "0 < min_elevation" "stops_at np min_elevation date k r"
  shows "next_high_pass np date min_elevation limit = Some r"
proof (cases "kth_pass np date k")
  case (Inl e)
  with assms(3) have "r = None" "\<forall>j<k. low_pass min_elevation (kth_pass np date j)"
    by (simp_all add: stops_at_def)
  with high_pass_loop_raised [OF assms(1,2) _ Inl] show ?thesis
    by (simp add: next_high_pass_def)
next
  case (Inr p)
  with assms(3) have "r = Some p" "\<not> elevation_of p < min_elevation"
    "\<forall>j<k. low_pass min_elevation (kth_pass np date j)"
    by (simp_all add: stops_at_def)
  with high_pass_loop_found [OF assms(1,2) _ Inr] show ?thesis
    by (simp add: next_high_pass_def)
qed

lemma returns_stops_at:
  assumes "0 < limit" "0 < min_elevation" "next_high_pass np date min_elevation limit = Some r"
  shows "\<exists>k. stops_at np min_elevation date k r"
  using high_pass_loop_returns [of np min_elevation limit date 0 None r] assms
  by (simp add: next_high_pass_def)

lemma example_stops:
  "stops_at example_next_pass 10 0 1 (Some example_high_pass)"
proof -
  have "\<forall>j<1. low_pass 10 (kth_pass example_next_pass 0 j)"
    by (simp add: low_pass_def example_next_pass_def elevation_low)
  moreover have "kth_pass example_next_pass 0 1 = Inr example_high_pass"
    by (simp add: example_next_pass_def example_low_pass_def)
  ultimately show ?thesis
    by (simp add: stops_at_def elevation_high)
qed

text \<open>
  Claim C9. For every initial \<open>limit > 0\<close> the loop runs until a pass of elevation at
  least \<open>min_elevation\<close> is found, and that pass is returned, as the docstring says
  (the \<open>next_pass\<close> values of the soonest high-elevation pass). The code misses the case
  \<open>min_elevation \<le> 0\<close>: the loop compares \<open>min_elevation\<close> with an elevation that
  starts at \<open>0.0\<close>, so with \<open>min_elevation = 0\<close> and \<open>limit = 25\<close> its body never
  runs, \<open>next_pass\<close> is unbound at the \<open>return\<close>, and the \<open>except\<close> makes the result
  \<open>None\<close>, although at date 2 the first call of \<open>obs.next_pass\<close> finds the pass
  through the zenith, of elevation 90 degrees, and does not raise.
\<close>

theorem next_high_pass_zero_elevation_none:
  "(0::int) < 25
   \<and> kth_pass example_next_pass 2 0 = Inr example_high_pass
   \<and> \<not> elevation_of example_high_pass < 0
   \<and> next_high_pass example_next_pass 2 0 25 = Some None"
proof -
  have "kth_pass example_next_pass 2 0 = Inr example_high_pass"
    by (simp add: example_next_pass_def)
  moreover have "\<not> elevation_of example_high_pass < 0"
    by (simp add: elevation_high)
  moreover have "next_high_pass example_next_pass 2 0 25 = Some None"
    unfolding next_high_pass_def by (subst high_pass_loop.simps) simp
  ultimately show ?thesis by simp
qed

text \<open>
  For a positive \<open>min_elevation\<close> the code does what is described. \<open>next_high_pass\<close>
  never decreases \<open>limit\<close>, so \<open>limit\<close> does not bound the number of passes checked.
  For every \<open>limit > 0\<close> and every \<open>min_elevation > 0\<close>: whatever the number \<open>k\<close> of
  low passes found first, when call \<open>k\<close> finds a pass of elevation at least
  \<open>min_elevation\<close> that pass is returned, and when call \<open>k\<close> raises, \<open>None\<close> is
  returned; the function returns only if some call finds such a pass or raises; if every
  call finds a low pass it never returns; and the result is the same for every other
  positive \<open>limit\<close>.
\<close>

theorem next_high_pass_unbounded:
  assumes limit: "0 < limit" and elev: "0 < min_elevation"
  shows "(\<forall>k r. stops_at np min_elevation date k r \<longrightarrow>
             next_high_pass np date min_elevation limit = Some r)
     \<and> (\<forall>r. next_high_pass np date min_elevation limit = Some r \<longrightarrow>
             (\<exists>k. stops_at np min_elevation date k r))
     \<and> ((\<forall>k. low_pass min_elevation (kth_pass np date k)) \<longrightarrow>
             next_high_pass np date min_elevation limit = None)
     \<and> (\<forall>limit'. 0 < limit' \<longrightarrow>
             next_high_pass np date min_elevation limit'
               = next_high_pass np date min_elevation limit)"
proof -
  have a: "next_high_pass np date min_elevation limit = Some r"
    if "stops_at np min_elevation date k r" for k r
    using limit elev that by (rule stops_at_returns)
  have b: "\<exists>k. stops_at np min_elevation date k r"
    if "next_high_pass np date min_elevation limit = Some r" for r
    using limit elev that by (rule returns_stops_at)
  have c: "next_high_pass np date min_elevation limit = None"
    if low: "\<forall>k. low_pass min_elevation (kth_pass np date k)"
  proof (cases "next_high_pass np date min_elevation limit")
    case None
    then show ?thesis .
  next
    case (Some r)
    from b [OF this] obtain k where "stops_at np min_elevation date k r" ..
    from stops_at_not_low [OF this] low show ?thesis by blast
  qed
  have d: "next_high_pass np date min_elevation limit'
             = next_high_pass np date min_elevation limit"
    if limit': "0 < limit'" for limit'
  proof (cases "next_high_pass np date min_elevation limit")
    case (Some r)
    from b [OF this] obtain k where "stops_at np min_elevation date k r" ..
    from stops_at_returns [OF limit' elev this] Some show ?thesis by simp
  next
    case None
    show ?thesis
    proof (cases "next_high_pass np date min_elevation limit'")
      case (Some r)
      from returns_stops_at [OF limit' elev this] obtain k
        where "stops_at np min_elevation date k r" ..
      from a [OF this] None show ?thesis by simp
    next
      case None': None
      with None show ?thesis by simp
    qed
  qed
  show ?thesis
    using a b c d by blast
qed

theorem next_high_pass_unbounded_witness:
  "(0::int) < 1 \<and> (0::real) < 10
   \<and> low_pass 10 (kth_pass example_next_pass 0 0)
   \<and> kth_pass example_next_pass 0 1 = Inr example_high_pass
   \<and> \<not> elevation_of example_high_pass < 10
   \<and> next_high_pass example_next_pass 0 10 1 = Some (Some example_high_pass)
   \<and> next_high_pass example_next_pass 0 10 25 = next_high_pass example_next_pass 0 10 1"
proof -
  have l: "(0::int) < 1" by simp
  have e: "(0::real) < 10" by simp
  have l': "(0::int) < 25" by simp
  have low: "low_pass 10 (kth_pass example_next_pass 0 0)"
    by (simp add: low_pass_def example_next_pass_def elevation_low)
  have high: "kth_pass example_next_pass 0 1 = Inr example_high_pass"
    by (simp add: example_next_pass_def example_low_pass_def)
  have el: "\<not> elevation_of example_high_pass < 10"
    by (simp add: elevation_high)
  show ?thesis
    using l e l' low high el example_stops
      next_high_pass_unbounded [OF l e, of example_next_pass 0]
    by blast
qed

end
